theory Spec2Isabelle
  imports Main "HOL-Library.Multiset" "HOL-Library.Sublist" "HOL-Library.Char_ord"
    "HOL-Library.List_Lexorder"
begin

section \<open>Genesis transaction collection (x/genutil/collect.go)\<close>

text \<open>
  Go strings are byte sequences: a \<^typ>\<open>string\<close> here is a list of 8-bit characters, and
  the order on strings (\<open>Char_ord\<close>, \<open>List_Lexorder\<close>) is the byte-wise lexicographic order
  that Go's \<open><\<close> on strings and \<open>sort.Strings\<close> use.
\<close>

subsection \<open>Data\<close>

type_synonym bytes = string

text \<open>
  Error values. \<open>OSError\<close> stands for what \<open>ioutil.ReadDir\<close> and \<open>ioutil.ReadFile\<close>
  return, \<open>CodecError\<close> for what the codec returns, and \<open>ErrUnknownRequest\<close> for
  \<open>sdk.ErrUnknownRequest(msg)\<close>, the only error this file builds itself.
\<close>

datatype error = OSError string | CodecError string | ErrUnknownRequest string

text \<open>
  \<open>authexported.Account\<close>: \<open>Address\<close> is \<open>acc.GetAddress().String()\<close>; the other fields are
  not looked at by this code.
\<close>

record Account =
  Address :: string
  AccountNumber :: nat
  Sequence :: nat

text \<open>
  \<open>sdk.Msg\<close> is an interface. \<open>MsgCreateValidator\<close> carries \<open>msg.Signer.String()\<close> and
  \<open>msg.Description.Name\<close>; every other message kind the codec can decode is \<open>OtherMsg\<close>
  with its type name.
\<close>

datatype Msg = MsgCreateValidator (Signer: string) (Description_Name: string)
  | OtherMsg string

text \<open>\<open>authtypes.StdTx\<close>: \<open>GetMsgs()\<close> and \<open>GetMemo()\<close>.\<close>

record StdTx =
  Msgs :: "Msg list"
  Memo :: string

text \<open>\<open>os.FileInfo\<close>: \<open>Name()\<close> and \<open>IsDir()\<close>.\<close>

record FileInfo =
  Name :: string
  IsDir :: bool

type_synonym AppState = "string \<rightharpoonup> bytes"

text \<open>\<open>tmtypes.GenesisDoc\<close>.\<close>

record GenesisDoc =
  ChainID :: string
  AppState :: bytes

text \<open>\<open>cfg.Config\<close>: \<open>PersistentPeers\<close> is \<open>config.P2P.PersistentPeers\<close>, \<open>Genesis\<close> the
  configured genesis file path.\<close>

record Config =
  RootDir :: string
  Moniker :: string
  Genesis :: string
  PersistentPeers :: string

record InitConfig =
  GenTxsDir :: string

text \<open>
  A call returns, panics (a failed type assertion, an error raised by \<open>panic\<close>), or ends
  the process (\<open>os.Exit\<close>).
\<close>

datatype 'a outcome = Returned 'a | Panicked string | Exited string

text \<open>
  The collaborators the code calls: the file system, the codec, the genesis account
  iterator's source of accounts, the formatting of the address map by \<open>%+v\<close>, the
  functions of this package that build and export the genesis state, and
  \<open>cfg.WriteConfigFile\<close>. The latter has no result: it returns once the file is written,
  panics when the configuration template cannot be rendered, and ends the process when
  the file cannot be written.
\<close>

record Env =
  ReadDir :: "string \<Rightarrow> error + FileInfo list"
  ReadFile :: "string \<Rightarrow> error + bytes"
  UnmarshalAppState :: "bytes \<Rightarrow> error + AppState"
  UnmarshalStdTx :: "bytes \<Rightarrow> error + StdTx"
  GenesisAccounts :: "AppState \<Rightarrow> Account list"
  FormatAddrMap :: "(string \<rightharpoonup> Account) \<Rightarrow> string"
  GenesisStateFromGenDoc :: "GenesisDoc \<Rightarrow> error + AppState"
  SetGenTxsInAppGenesisState :: "AppState \<Rightarrow> StdTx list \<Rightarrow> error + AppState"
  MarshalJSONIndent :: "AppState \<Rightarrow> error + bytes"
  ExportGenesisFile :: "GenesisDoc \<Rightarrow> string \<Rightarrow> error option"
  WriteConfigFile :: "string \<Rightarrow> Config \<Rightarrow> unit outcome"

text \<open>What \<open>CollectStdTxs\<close> returns: its three named results.\<close>

record CollectRet =
  appGenTxs :: "StdTx list"
  persistentPeers :: string
  err :: "error option"

subsection \<open>Library functions\<close>

text \<open>
  \<open>filepath.Ext\<close>: scan from the end of the path; stop with the empty string at a path
  separator, return the suffix starting at the first dot met.
\<close>

fun ext_scan :: "string \<Rightarrow> string \<Rightarrow> string" where
  "ext_scan [] acc = []"
| "ext_scan (c # cs) acc =
     (if c = CHR ''/'' then []
      else if c = CHR ''.'' then c # acc
      else ext_scan cs (c # acc))"

definition filepath_Ext :: "string \<Rightarrow> string" where
  "filepath_Ext path = ext_scan (rev path) []"

text \<open>
  \<open>filepath.Join\<close>: the non-empty elements joined by the separator. The normalisation
  that \<open>filepath.Clean\<close> then applies to the directory part is left out: the names
  \<open>ioutil.ReadDir\<close> returns are single path elements, so the last element is unchanged.
\<close>

fun filepath_Join :: "string list \<Rightarrow> string" where
  "filepath_Join [] = []"
| "filepath_Join (e # es) =
     (if e = [] then filepath_Join es
      else if filepath_Join es = [] then e
      else e @ ''/'' @ filepath_Join es)"

text \<open>\<open>strings.Join\<close>.\<close>

fun strings_Join :: "string list \<Rightarrow> string \<Rightarrow> string" where
  "strings_Join [] sep = []"
| "strings_Join [e] sep = e"
| "strings_Join (e # es) sep = e @ concat (map (\<lambda>s. sep @ s) es)"

text \<open>
  \<open>sort.Strings\<close> sorts in increasing byte-wise order. Equal strings are identical, so the
  result is the one sorted arrangement of the slice, which \<^const>\<open>sort\<close> computes.
\<close>

definition sort_Strings :: "string list \<Rightarrow> string list" where
  "sort_Strings xs = sort xs"

subsection \<open>The genesis account index\<close>

text \<open>
  Modelled from the spec: \<open>types.GenesisAccountsIterator.IterateGenesisAccounts\<close> is an
  interface whose implementation is not in this file. The spec describes it as a capability
  to iterate all accounts embedded in the application state, invoking a caller-supplied
  callback per account; the callback's result says whether to stop.
\<close>

fun IterateGenesisAccounts :: "Account list \<Rightarrow> (Account \<Rightarrow> 's \<Rightarrow> 's \<times> bool) \<Rightarrow> 's \<Rightarrow> 's" where
  "IterateGenesisAccounts [] cb s = s"
| "IterateGenesisAccounts (acc # accs) cb s =
     (case cb acc s of (s', stop) \<Rightarrow>
        if stop then s' else IterateGenesisAccounts accs cb s')"

text \<open>The callback of \<open>CollectStdTxs\<close>: store the account under its address, never stop.\<close>

definition addrMap_callback :: "Account \<Rightarrow> (string \<rightharpoonup> Account) \<Rightarrow> (string \<rightharpoonup> Account) \<times> bool" where
  "addrMap_callback acc addrMap = (addrMap(Address acc \<mapsto> acc), False)"

definition build_addrMap :: "Account list \<Rightarrow> (string \<rightharpoonup> Account)" where
  "build_addrMap accs = IterateGenesisAccounts accs addrMap_callback Map.empty"

subsection \<open>CollectStdTxs\<close>

text \<open>
  One iteration of the loop over the directory entries, from the transactions and node
  addresses collected so far: it goes on to the next entry, or leaves the function.
\<close>

datatype step = Continue "StdTx list" "string list" | Break "CollectRet outcome"

definition loop_body ::
  "Env \<Rightarrow> string \<Rightarrow> string \<Rightarrow> (string \<rightharpoonup> Account) \<Rightarrow> FileInfo \<Rightarrow> StdTx list \<Rightarrow> string list \<Rightarrow> step" where
  "loop_body env name genTxsDir addrMap fo txs addressesIPs =
     (let filename = filepath_Join [genTxsDir, Name fo] in
      if \<not> IsDir fo \<and> filepath_Ext filename \<noteq> ''.json'' then Continue txs addressesIPs
      else case ReadFile env filename of
        Inl e \<Rightarrow> Break (Returned \<lparr>appGenTxs = txs, persistentPeers = [], err = Some e\<rparr>)
      | Inr jsonRawTx \<Rightarrow>
        (case UnmarshalStdTx env jsonRawTx of
          Inl e \<Rightarrow> Break (Returned \<lparr>appGenTxs = txs, persistentPeers = [], err = Some e\<rparr>)
        | Inr genStdTx \<Rightarrow>
          (let txs' = txs @ [genStdTx];
               nodeAddrIP = Memo genStdTx in
           if length nodeAddrIP = 0 then
             Break (Returned \<lparr>appGenTxs = txs', persistentPeers = [],
               err = Some (ErrUnknownRequest
                 (''couldn't find node's address and IP in '' @ Name fo))\<rparr>)
           else
            (let msgs = Msgs genStdTx in
             if length msgs \<noteq> 1 then
               Break (Returned \<lparr>appGenTxs = txs', persistentPeers = [],
                 err = Some (ErrUnknownRequest
                   ''each genesis transaction must provide a single genesis message'')\<rparr>)
             else
              (case msgs ! 0 of
                OtherMsg kind \<Rightarrow>
                  Break (Panicked (''interface conversion: types.Msg is '' @ kind
                    @ '', not validator.MsgCreateValidator''))
              | MsgCreateValidator account descName \<Rightarrow>
                  if addrMap account = None then
                    Break (Returned \<lparr>appGenTxs = txs', persistentPeers = [],
                      err = Some (ErrUnknownRequest
                        (''Error account '' @ account @ '' not in genesis.json: ''
                          @ FormatAddrMap env addrMap))\<rparr>)
                  else if descName \<noteq> name then Continue txs' (addressesIPs @ [nodeAddrIP])
                  else Continue txs' addressesIPs)))))"

fun loop ::
  "Env \<Rightarrow> string \<Rightarrow> string \<Rightarrow> (string \<rightharpoonup> Account) \<Rightarrow> FileInfo list \<Rightarrow> StdTx list \<Rightarrow> string list \<Rightarrow> step" where
  "loop env name genTxsDir addrMap [] txs addressesIPs = Continue txs addressesIPs"
| "loop env name genTxsDir addrMap (fo # fos) txs addressesIPs =
     (case loop_body env name genTxsDir addrMap fo txs addressesIPs of
        Break r \<Rightarrow> Break r
      | Continue txs' addressesIPs' \<Rightarrow> loop env name genTxsDir addrMap fos txs' addressesIPs')"

definition CollectStdTxs :: "Env \<Rightarrow> string \<Rightarrow> string \<Rightarrow> GenesisDoc \<Rightarrow> CollectRet outcome" where
  "CollectStdTxs env name genTxsDir genDoc =
     (case ReadDir env genTxsDir of
        Inl e \<Rightarrow> Returned \<lparr>appGenTxs = [], persistentPeers = [], err = Some e\<rparr>
      | Inr fos \<Rightarrow>
        (case UnmarshalAppState env (AppState genDoc) of
           Inl e \<Rightarrow> Returned \<lparr>appGenTxs = [], persistentPeers = [], err = Some e\<rparr>
         | Inr appState \<Rightarrow>
           (let addrMap = build_addrMap (GenesisAccounts env appState) in
            case loop env name genTxsDir addrMap fos [] [] of
              Break r \<Rightarrow> r
            | Continue txs addressesIPs \<Rightarrow>
                Returned \<lparr>appGenTxs = txs,
                  persistentPeers = strings_Join (sort_Strings addressesIPs) '','',
                  err = None\<rparr>)))"

subsection \<open>GenAppStateFromConfig\<close>

text \<open>The files a run writes, in the order of the writes.\<close>

datatype written = ConfigFile string Config | GenesisFile string GenesisDoc

text \<open>
  \<open>config.GenesisFile()\<close>: the configured path, under the root directory unless absolute.
\<close>

definition Config_GenesisFile :: "Config \<Rightarrow> string" where
  "Config_GenesisFile config =
     (if take 1 (Genesis config) = ''/'' then Genesis config
      else filepath_Join [RootDir config, Genesis config])"

text \<open>
  What \<open>GenAppStateFromConfig\<close> returns, together with its effects: the configuration
  object it updates through the pointer and the files it has written when it returns.
\<close>

record GenRet =
  appState :: bytes
  gen_err :: "error option"
  config_after :: Config
  files :: "written list"

definition GenAppStateFromConfig ::
  "Env \<Rightarrow> Config \<Rightarrow> InitConfig \<Rightarrow> GenesisDoc \<Rightarrow> GenRet outcome" where
  "GenAppStateFromConfig env config initCfg genDoc =
     (case CollectStdTxs env (Moniker config) (GenTxsDir initCfg) genDoc of
        Panicked p \<Rightarrow> Panicked p
      | Exited m \<Rightarrow> Exited m
      | Returned c \<Rightarrow>
        (case err c of
           Some e \<Rightarrow> Returned \<lparr>appState = [], gen_err = Some e, config_after = config, files = []\<rparr>
         | None \<Rightarrow>
           (let config' = config\<lparr>PersistentPeers := persistentPeers c\<rparr>;
                configFilePath = filepath_Join [RootDir config', ''config'', ''config.toml''] in
            case WriteConfigFile env configFilePath config' of
              Panicked p \<Rightarrow> Panicked p
            | Exited m \<Rightarrow> Exited m
            | Returned u \<Rightarrow>
              (let w1 = [ConfigFile configFilePath config'] in
               if length (appGenTxs c) = 0 then
                 Returned \<lparr>appState = [],
                   gen_err = Some (ErrUnknownRequest ''there must be at least one genesis tx''),
                   config_after = config', files = w1\<rparr>
               else
                 (case GenesisStateFromGenDoc env genDoc of
                    Inl e \<Rightarrow> Returned \<lparr>appState = [], gen_err = Some e, config_after = config', files = w1\<rparr>
                  | Inr appGenesisState \<Rightarrow>
                    (case SetGenTxsInAppGenesisState env appGenesisState (appGenTxs c) of
                       Inl e \<Rightarrow> Returned \<lparr>appState = [], gen_err = Some e, config_after = config', files = w1\<rparr>
                     | Inr appGenesisState' \<Rightarrow>
                       (case MarshalJSONIndent env appGenesisState' of
                          Inl e \<Rightarrow> Returned \<lparr>appState = [], gen_err = Some e, config_after = config', files = w1\<rparr>
                        | Inr appState' \<Rightarrow>
                          (let genDoc' = genDoc\<lparr>AppState := appState'\<rparr>;
                               path = Config_GenesisFile config' in
                           case ExportGenesisFile env genDoc' path of
                             Some e \<Rightarrow> Returned \<lparr>appState = appState', gen_err = Some e,
                               config_after = config', files = w1\<rparr>
                           | None \<Rightarrow> Returned \<lparr>appState = appState', gen_err = None,
                               config_after = config', files = w1 @ [GenesisFile path genDoc']\<rparr>))))))))"


subsection \<open>Notions used to state the properties\<close>

text \<open>
  The display name of the validator a transaction creates, when the transaction consists of
  exactly one validator-creation message.
\<close>

definition validator_name :: "StdTx \<Rightarrow> string option" where
  "validator_name tx =
     (case Msgs tx of [MsgCreateValidator account descName] \<Rightarrow> Some descName | _ \<Rightarrow> None)"

text \<open>
  The checks a decoded transaction has to pass for the loop to go on: a memo, a single
  message, of the validator-creation kind, signed by an account of the index.
\<close>

definition valid_tx :: "(string \<rightharpoonup> Account) \<Rightarrow> StdTx \<Rightarrow> bool" where
  "valid_tx addrMap tx =
     (Memo tx \<noteq> [] \<and>
      (case Msgs tx of [MsgCreateValidator account descName] \<Rightarrow> addrMap account \<noteq> None
       | _ \<Rightarrow> False))"

text \<open>
  The condition under which the loop does not skip a directory entry, and what reading and
  decoding that entry gives.
\<close>

definition is_read :: "string \<Rightarrow> FileInfo \<Rightarrow> bool" where
  "is_read genTxsDir fo =
     (IsDir fo \<or> filepath_Ext (filepath_Join [genTxsDir, Name fo]) = ''.json'')"

definition decode_entry :: "Env \<Rightarrow> string \<Rightarrow> FileInfo \<Rightarrow> error + StdTx" where
  "decode_entry env genTxsDir fo =
     (case ReadFile env (filepath_Join [genTxsDir, Name fo]) of
        Inl e \<Rightarrow> Inl e
      | Inr jsonRawTx \<Rightarrow> UnmarshalStdTx env jsonRawTx)"

text \<open>
  An entry lets the loop go on when it is skipped or decodes to a transaction that passes
  the checks; \<open>entry_txs\<close> is what it then adds to the collected transactions.
\<close>

definition entry_ok :: "Env \<Rightarrow> string \<Rightarrow> (string \<rightharpoonup> Account) \<Rightarrow> FileInfo \<Rightarrow> bool" where
  "entry_ok env genTxsDir addrMap fo =
     (if is_read genTxsDir fo
      then (case decode_entry env genTxsDir fo of Inl e \<Rightarrow> False | Inr tx \<Rightarrow> valid_tx addrMap tx)
      else True)"

definition entry_txs :: "Env \<Rightarrow> string \<Rightarrow> FileInfo \<Rightarrow> StdTx list" where
  "entry_txs env genTxsDir fo =
     (if is_read genTxsDir fo
      then (case decode_entry env genTxsDir fo of Inl e \<Rightarrow> [] | Inr tx \<Rightarrow> [tx])
      else [])"

text \<open>
  Every way of leaving the loop early is a failure: a return with an error and with the
  peers string still empty, or no return at all.
\<close>

definition failed :: "CollectRet outcome \<Rightarrow> bool" where
  "failed res = (case res of Returned r \<Rightarrow> err r \<noteq> None \<and> persistentPeers r = [] | Panicked p \<Rightarrow> True
      | Exited m \<Rightarrow> True)"

text \<open>
  The node addresses that go into the peers string: the memos of the transactions whose
  validator is not the local node.
\<close>

definition peer_addresses :: "string \<Rightarrow> StdTx list \<Rightarrow> string list" where
  "peer_addresses name txs = map Memo (filter (\<lambda>tx. validator_name tx \<noteq> Some name) txs)"

subsection \<open>An example network\<close>

text \<open>
  A concrete environment: a transaction directory \<open>gentxs\<close> with the given entries, file
  contents, decoding of contents, and genesis accounts, where every write succeeds. It serves to run the functions on
  explicit inputs.
\<close>

definition example_env ::
  "FileInfo list \<Rightarrow> (string \<times> (error + bytes)) list \<Rightarrow> (bytes \<times> StdTx) list \<Rightarrow> Account list \<Rightarrow> Env" where
  "example_env entries contents decoded accounts =
     \<lparr>ReadDir = (\<lambda>d. if d = ''gentxs'' then Inr entries
                     else Inl (OSError ''no such file or directory'')),
      ReadFile = (\<lambda>p. case map_of contents p of
                     Some c \<Rightarrow> c | None \<Rightarrow> Inl (OSError ''no such file or directory'')),
      UnmarshalAppState = (\<lambda>b. Inr Map.empty),
      UnmarshalStdTx = (\<lambda>b. case map_of decoded b of
                     Some tx \<Rightarrow> Inr tx | None \<Rightarrow> Inl (CodecError ''invalid JSON'')),
      GenesisAccounts = (\<lambda>st. accounts),
      FormatAddrMap = (\<lambda>m. ''map[]''),
      GenesisStateFromGenDoc = (\<lambda>g. Inr Map.empty),
      SetGenTxsInAppGenesisState = (\<lambda>st txs. Inr st),
      MarshalJSONIndent = (\<lambda>st. Inr ''{}''),
      ExportGenesisFile = (\<lambda>g p. None),
      WriteConfigFile = (\<lambda>p c. Returned ())\<rparr>"

text \<open>
  The scenario of the specification: \<open>v1.json\<close> by alice (account \<open>addr1\<close>) and
  \<open>v2.json\<close> by bob (account \<open>addr2\<close>), and variants of bob's transaction.
\<close>

definition tx_alice :: StdTx where
  "tx_alice = \<lparr>Msgs = [MsgCreateValidator ''addr1'' ''alice''], Memo = ''nodeA@10.0.0.1:26656''\<rparr>"

definition tx_bob :: StdTx where
  "tx_bob = \<lparr>Msgs = [MsgCreateValidator ''addr2'' ''bob''], Memo = ''nodeB@10.0.0.2:26656''\<rparr>"

definition tx_bob_same_address :: StdTx where
  "tx_bob_same_address =
     \<lparr>Msgs = [MsgCreateValidator ''addr2'' ''bob''], Memo = ''nodeA@10.0.0.1:26656''\<rparr>"

definition tx_two_messages :: StdTx where
  "tx_two_messages =
     \<lparr>Msgs = [MsgCreateValidator ''addr2'' ''bob'', MsgCreateValidator ''addr2'' ''bob''],
      Memo = ''nodeB@10.0.0.2:26656''\<rparr>"


definition tx_other_kind :: StdTx where
  "tx_other_kind = \<lparr>Msgs = [OtherMsg ''pki.MsgProposeAddX509RootCert''],
      Memo = ''nodeB@10.0.0.2:26656''\<rparr>"

definition account1 :: Account where
  "account1 = \<lparr>Address = ''addr1'', AccountNumber = 0, Sequence = 0\<rparr>"

definition account2 :: Account where
  "account2 = \<lparr>Address = ''addr2'', AccountNumber = 1, Sequence = 0\<rparr>"

definition account1_again :: Account where
  "account1_again = \<lparr>Address = ''addr1'', AccountNumber = 7, Sequence = 3\<rparr>"

definition example_accounts :: "Account list" where
  "example_accounts =
     [\<lparr>Address = ''addr1'', AccountNumber = 0, Sequence = 0\<rparr>,
      \<lparr>Address = ''addr2'', AccountNumber = 1, Sequence = 0\<rparr>]"

definition example_genDoc :: GenesisDoc where
  "example_genDoc = \<lparr>ChainID = ''testnet'', AppState = ''{}''\<rparr>"

definition example_config :: Config where
  "example_config = \<lparr>RootDir = ''/home/node'', Moniker = ''alice'',
     Genesis = ''config/genesis.json'', PersistentPeers = ''stale@10.0.0.9:26656''\<rparr>"

definition example_initCfg :: InitConfig where
  "example_initCfg = \<lparr>GenTxsDir = ''gentxs''\<rparr>"

definition v1_json :: FileInfo where
  "v1_json = \<lparr>Name = ''v1.json'', IsDir = False\<rparr>"

definition v2_json :: FileInfo where
  "v2_json = \<lparr>Name = ''v2.json'', IsDir = False\<rparr>"

definition readme_md :: FileInfo where
  "readme_md = \<lparr>Name = ''README.md'', IsDir = False\<rparr>"

definition backup_dir :: FileInfo where
  "backup_dir = \<lparr>Name = ''backup'', IsDir = True\<rparr>"

definition read_only_root :: "Env \<Rightarrow> Env" where
  "read_only_root env =
     env\<lparr>WriteConfigFile := \<lambda>p c. Exited ''MustWriteFile failed: read-only file system''\<rparr>"

definition network :: "StdTx \<Rightarrow> Env" where
  "network tx = example_env [v1_json, readme_md, v2_json]
     [(''gentxs/v1.json'', Inr ''A''), (''gentxs/v2.json'', Inr ''B'')]
     [(''A'', tx_alice), (''B'', tx)]
     example_accounts"

definition network_with_subdir :: Env where
  "network_with_subdir = example_env [backup_dir, v1_json, v2_json]
     [(''gentxs/backup'', Inl (OSError ''read gentxs/backup: is a directory'')),
      (''gentxs/v1.json'', Inr ''A''), (''gentxs/v2.json'', Inr ''B'')]
     [(''A'', tx_alice), (''B'', tx_bob)]
     example_accounts"

definition undecodable_v2 :: Env where
  "undecodable_v2 = example_env [v2_json] [(''gentxs/v2.json'', Inr ''B'')] [] example_accounts"

section \<open>Properties\<close>

subsection \<open>File names\<close>

lemma ext_scan_json_suffix:
  "ext_scan r acc = ''.json'' \<Longrightarrow> suffix ''.json'' (rev r @ acc)"
proof (induction r arbitrary: acc)
  case Nil
  then show ?case by simp
next
  case (Cons c cs)
  show ?case
  proof (cases "c = CHR ''/''")
    case True
    with Cons.prems show ?thesis by simp
  next
    case False
    show ?thesis
    proof (cases "c = CHR ''.''")
      case True
      with Cons.prems False have "c # acc = ''.json''" by simp
      then show ?thesis by (simp add: suffix_def)
    next
      case nd: False
      with Cons.prems False have "ext_scan cs (c # acc) = ''.json''" by simp
      from Cons.IH[OF this] show ?thesis by simp
    qed
  qed
qed

lemma filepath_Ext_json: "filepath_Ext p = ''.json'' \<longleftrightarrow> suffix ''.json'' p"
proof
  assume "filepath_Ext p = ''.json''"
  then show "suffix ''.json'' p"
    using ext_scan_json_suffix[of "rev p" "[]"] by (simp add: filepath_Ext_def)
next
  assume "suffix ''.json'' p"
  then obtain q where "p = q @ ''.json''" by (auto simp: suffix_def)
  then show "filepath_Ext p = ''.json''" by (simp add: filepath_Ext_def)
qed

lemma suffix_json_Join:
  assumes "n \<noteq> []"
  shows "suffix ''.json'' (filepath_Join [d, n]) \<longleftrightarrow> suffix ''.json'' n"
proof -
  have sl: "\<not> suffix ''.json'' (xs @ CHR ''/'' # ys) \<or> suffix ''.json'' ys" for xs ys :: string
  proof (cases "suffix ''.json'' ys")
    case True then show ?thesis by simp
  next
    case False
    have "\<not> suffix ''.json'' (xs @ CHR ''/'' # ys)"
    proof
      assume "suffix ''.json'' (xs @ CHR ''/'' # ys)"
      then have "suffix ''.json'' (CHR ''/'' # ys) \<or> (\<exists>xs'. ''.json'' = xs' @ CHR ''/'' # ys \<and> suffix xs' xs)"
        by (simp add: suffix_append)
      then show False
      proof
        assume "suffix ''.json'' (CHR ''/'' # ys)"
        with False show False by (auto simp: suffix_Cons)
      next
        assume "\<exists>xs'. ''.json'' = xs' @ CHR ''/'' # ys \<and> suffix xs' xs"
        then obtain xs' where "''.json'' = xs' @ CHR ''/'' # ys" by blast
        then have "CHR ''/'' \<in> set ''.json''" by (metis in_set_conv_decomp)
        then show False by simp
      qed
    qed
    then show ?thesis by simp
  qed
  show ?thesis
  proof (cases "d = []")
    case True
    then show ?thesis by simp
  next
    case False
    with assms have "filepath_Join [d, n] = d @ CHR ''/'' # n" by simp
    then    have eq: "filepath_Join [d, n] = (d @ ''/'') @ n" by simp
    have "suffix ''.json'' n \<Longrightarrow> suffix ''.json'' ((d @ ''/'') @ n)"
      by (rule suffix_appendI)
    moreover have "suffix ''.json'' ((d @ ''/'') @ n) \<Longrightarrow> suffix ''.json'' n"
      using sl[of d n] by simp
    ultimately show ?thesis unfolding eq by blast
  qed
qed

lemma is_read_cond:
  "is_read d fo \<longleftrightarrow>
   \<not> (\<not> IsDir fo \<and> filepath_Ext (filepath_Join [d, Name fo]) \<noteq> ''.json'')"
  unfolding is_read_def by blast

lemma is_read_suffix:
  assumes "Name fo \<noteq> []"
  shows "is_read d fo \<longleftrightarrow> IsDir fo \<or> suffix ''.json'' (Name fo)"
  unfolding is_read_def filepath_Ext_json suffix_json_Join[OF assms] ..

subsection \<open>One iteration of the loop\<close>

lemma length_1_D: "length xs = 1 \<Longrightarrow> \<exists>x. xs = [x]"
  by (cases xs) auto

lemma decode_entry_Inr:
  "decode_entry env d fo = Inr tx \<Longrightarrow>
   \<exists>raw. ReadFile env (filepath_Join [d, Name fo]) = Inr raw \<and> UnmarshalStdTx env raw = Inr tx"
  unfolding decode_entry_def by (cases "ReadFile env (filepath_Join [d, Name fo])") simp_all

lemma decode_entry_Inl:
  "decode_entry env d fo = Inl e \<Longrightarrow>
   ReadFile env (filepath_Join [d, Name fo]) = Inl e \<or>
   (\<exists>raw. ReadFile env (filepath_Join [d, Name fo]) = Inr raw \<and> UnmarshalStdTx env raw = Inl e)"
  unfolding decode_entry_def by (cases "ReadFile env (filepath_Join [d, Name fo])") simp_all

lemma loop_body_skip:
  assumes "\<not> is_read d fo"
  shows "loop_body env name d am fo txs ips = Continue txs ips"
proof -
  from assms have c: "(\<not> IsDir fo \<and> filepath_Ext (filepath_Join [d, Name fo]) \<noteq> ''.json'') = True"
    unfolding is_read_cond by simp
  show ?thesis unfolding loop_body_def Let_def c by (simp only: if_True)
qed

lemma loop_body_decode_error:
  assumes "is_read d fo" "decode_entry env d fo = Inl e"
  shows "loop_body env name d am fo txs ips =
     Break (Returned \<lparr>appGenTxs = txs, persistentPeers = [], err = Some e\<rparr>)"
proof -
  from assms(1) have c: "(\<not> IsDir fo \<and> filepath_Ext (filepath_Join [d, Name fo]) \<noteq> ''.json'') = False"
    unfolding is_read_cond by simp
  from decode_entry_Inl[OF assms(2)] show ?thesis
    unfolding loop_body_def Let_def c by (auto simp only: if_False sum.case)
qed

lemma loop_body_decoded:
  assumes "is_read d fo" "decode_entry env d fo = Inr tx"
  shows "loop_body env name d am fo txs ips =
    (if length (Memo tx) = 0 then
       Break (Returned \<lparr>appGenTxs = txs @ [tx], persistentPeers = [],
         err = Some (ErrUnknownRequest
           (''couldn't find node's address and IP in '' @ Name fo))\<rparr>)
     else if length (Msgs tx) \<noteq> 1 then
       Break (Returned \<lparr>appGenTxs = txs @ [tx], persistentPeers = [],
         err = Some (ErrUnknownRequest
           ''each genesis transaction must provide a single genesis message'')\<rparr>)
     else
      (case Msgs tx ! 0 of
        OtherMsg kind \<Rightarrow>
          Break (Panicked (''interface conversion: types.Msg is '' @ kind
            @ '', not validator.MsgCreateValidator''))
      | MsgCreateValidator account descName \<Rightarrow>
          if am account = None then
            Break (Returned \<lparr>appGenTxs = txs @ [tx], persistentPeers = [],
              err = Some (ErrUnknownRequest
                (''Error account '' @ account @ '' not in genesis.json: ''
                  @ FormatAddrMap env am))\<rparr>)
          else if descName \<noteq> name then Continue (txs @ [tx]) (ips @ [Memo tx])
          else Continue (txs @ [tx]) ips))"
proof -
  from assms(1) have c: "(\<not> IsDir fo \<and> filepath_Ext (filepath_Join [d, Name fo]) \<noteq> ''.json'') = False"
    unfolding is_read_cond by simp
  from decode_entry_Inr[OF assms(2)] obtain raw where
    r: "ReadFile env (filepath_Join [d, Name fo]) = Inr raw" "UnmarshalStdTx env raw = Inr tx"
    by blast
  show ?thesis
    unfolding loop_body_def Let_def c by (simp only: r if_False sum.case)
qed

lemma loop_body_no_memo:
  "is_read d fo \<Longrightarrow> decode_entry env d fo = Inr tx \<Longrightarrow> Memo tx = [] \<Longrightarrow>
   loop_body env name d am fo txs ips =
     Break (Returned \<lparr>appGenTxs = txs @ [tx], persistentPeers = [],
       err = Some (ErrUnknownRequest (''couldn't find node's address and IP in '' @ Name fo))\<rparr>)"
  by (simp add: loop_body_decoded)

lemma loop_body_not_single:
  "is_read d fo \<Longrightarrow> decode_entry env d fo = Inr tx \<Longrightarrow> Memo tx \<noteq> [] \<Longrightarrow>
   length (Msgs tx) \<noteq> 1 \<Longrightarrow>
   loop_body env name d am fo txs ips =
     Break (Returned \<lparr>appGenTxs = txs @ [tx], persistentPeers = [],
       err = Some (ErrUnknownRequest
         ''each genesis transaction must provide a single genesis message'')\<rparr>)"
  by (simp add: loop_body_decoded)

lemma loop_body_other_kind:
  "is_read d fo \<Longrightarrow> decode_entry env d fo = Inr tx \<Longrightarrow> Memo tx \<noteq> [] \<Longrightarrow>
   Msgs tx = [OtherMsg kind] \<Longrightarrow>
   loop_body env name d am fo txs ips =
     Break (Panicked (''interface conversion: types.Msg is '' @ kind
       @ '', not validator.MsgCreateValidator''))"
  by (simp add: loop_body_decoded)

lemma loop_body_unknown_signer:
  "is_read d fo \<Longrightarrow> decode_entry env d fo = Inr tx \<Longrightarrow> Memo tx \<noteq> [] \<Longrightarrow>
   Msgs tx = [MsgCreateValidator account descName] \<Longrightarrow> am account = None \<Longrightarrow>
   loop_body env name d am fo txs ips =
     Break (Returned \<lparr>appGenTxs = txs @ [tx], persistentPeers = [],
       err = Some (ErrUnknownRequest (''Error account '' @ account @ '' not in genesis.json: ''
         @ FormatAddrMap env am))\<rparr>)"
  by (simp add: loop_body_decoded)

lemma valid_tx_conv:
  "valid_tx am tx \<longleftrightarrow>
   Memo tx \<noteq> [] \<and> (\<exists>account descName. Msgs tx = [MsgCreateValidator account descName] \<and> am account \<noteq> None)"
  unfolding valid_tx_def by (auto split: list.splits Msg.splits)

lemma loop_body_valid:
  assumes "is_read d fo" "decode_entry env d fo = Inr tx" "valid_tx am tx"
  shows "loop_body env name d am fo txs ips =
     Continue (txs @ [tx])
       (ips @ map Memo (filter (\<lambda>tx. validator_name tx \<noteq> Some name) [tx]))"
proof -
  from assms(3) obtain account descName where
    m: "Memo tx \<noteq> []" "Msgs tx = [MsgCreateValidator account descName]" "am account \<noteq> None"
    unfolding valid_tx_conv by blast
  have v: "validator_name tx = Some descName" by (simp add: validator_name_def m)
  have "loop_body env name d am fo txs ips =
     (if descName \<noteq> name then Continue (txs @ [tx]) (ips @ [Memo tx])
      else Continue (txs @ [tx]) ips)"
    using m by (auto simp add: loop_body_decoded[OF assms(1,2)])
  then show ?thesis by (simp add: v)
qed

lemma loop_body_Continue:
  assumes "loop_body env name d am fo txs ips = Continue txs' ips'"
  shows "entry_ok env d am fo"
proof (cases "is_read d fo")
  case False
  then show ?thesis by (simp add: entry_ok_def)
next
  case rd: True
  show ?thesis
  proof (cases "decode_entry env d fo")
    case (Inl e)
    have "\<exists>r. loop_body env name d am fo txs ips = Break r"
      by (rule exI, rule loop_body_decode_error[OF rd Inl])
    with assms show ?thesis by (auto simp only: step.distinct)
  next
    case (Inr tx)
    have "valid_tx am tx"
    proof (rule ccontr)
      assume nv: "\<not> valid_tx am tx"
      have "\<exists>r. loop_body env name d am fo txs ips = Break r"
      proof (cases "Memo tx = []")
        case True
        show ?thesis by (rule exI, rule loop_body_no_memo[OF rd Inr True])
      next
        case m: False
        show ?thesis
        proof (cases "length (Msgs tx) = 1")
          case False
          show ?thesis by (rule exI, rule loop_body_not_single[OF rd Inr m False])
        next
          case True
          from length_1_D[OF True] obtain msg where msg: "Msgs tx = [msg]" ..
          show ?thesis
          proof (cases msg)
            case (OtherMsg kind)
            with msg have mo: "Msgs tx = [OtherMsg kind]" by simp
            show ?thesis by (rule exI, rule loop_body_other_kind[OF rd Inr m mo])
          next
            case (MsgCreateValidator account descName)
            with msg have mm: "Msgs tx = [MsgCreateValidator account descName]" by simp
            with nv m have na: "am account = None" by (simp add: valid_tx_def)
            show ?thesis by (rule exI, rule loop_body_unknown_signer[where am=am, OF rd Inr m mm na])
          qed
        qed
      qed
      with assms show False by (auto simp only: step.distinct)
    qed
    with rd Inr show ?thesis by (simp add: entry_ok_def)
  qed
qed

lemma loop_body_ok:
  assumes "entry_ok env d am fo"
  shows "loop_body env name d am fo txs ips =
     Continue (txs @ entry_txs env d fo)
       (ips @ map Memo (filter (\<lambda>tx. validator_name tx \<noteq> Some name) (entry_txs env d fo)))"
proof (cases "is_read d fo")
  case False
  then show ?thesis by (simp add: loop_body_skip entry_txs_def)
next
  case True
  with assms obtain tx where tx: "decode_entry env d fo = Inr tx" "valid_tx am tx"
    by (auto simp: entry_ok_def split: sum.splits)
  with True have "entry_txs env d fo = [tx]" by (simp add: entry_txs_def)
  with loop_body_valid[OF True tx] show ?thesis by simp
qed

lemma loop_body_entry_cases:
  obtains (ok) "entry_ok env d am fo"
  | (bad) "\<And>txs ips. \<exists>res. loop_body env name d am fo txs ips = Break res \<and> failed res"
proof (cases "is_read d fo")
  case False
  then have "entry_ok env d am fo" by (simp add: entry_ok_def)
  then show ?thesis by (rule ok)
next
  case rd: True
  show ?thesis
  proof (cases "decode_entry env d fo")
    case (Inl e)
    show ?thesis
    proof (rule bad)
      fix txs ips
      show "\<exists>res. loop_body env name d am fo txs ips = Break res \<and> failed res"
        by (rule exI, rule conjI, rule loop_body_decode_error[OF rd Inl]) (simp add: failed_def)
    qed
  next
    case (Inr tx)
    show ?thesis
    proof (cases "valid_tx am tx")
      case True
      with rd Inr have "entry_ok env d am fo" by (simp add: entry_ok_def)
      then show ?thesis by (rule ok)
    next
      case nv: False
      show ?thesis
      proof (rule bad)
        fix txs ips
        show "\<exists>res. loop_body env name d am fo txs ips = Break res \<and> failed res"
        proof (cases "Memo tx = []")
          case True
          show ?thesis
            by (rule exI, rule conjI, rule loop_body_no_memo[OF rd Inr True])
              (simp add: failed_def)
        next
          case m: False
          show ?thesis
          proof (cases "length (Msgs tx) = 1")
            case False
            show ?thesis
              by (rule exI, rule conjI, rule loop_body_not_single[OF rd Inr m False])
                (simp add: failed_def)
          next
            case True
            from length_1_D[OF True] obtain msg where msg: "Msgs tx = [msg]" ..
            show ?thesis
            proof (cases msg)
              case (OtherMsg kind)
              with msg have mo: "Msgs tx = [OtherMsg kind]" by simp
              show ?thesis
                by (rule exI, rule conjI, rule loop_body_other_kind[OF rd Inr m mo])
                  (simp add: failed_def)
            next
              case (MsgCreateValidator account descName)
              with msg have mm: "Msgs tx = [MsgCreateValidator account descName]" by simp
              with nv m have na: "am account = None" by (simp add: valid_tx_def)
              show ?thesis
                by (rule exI, rule conjI,
                    rule loop_body_unknown_signer[where am=am, OF rd Inr m mm na])
                  (simp add: failed_def)
            qed
          qed
        qed
      qed
    qed
  qed
qed

lemma loop_body_Break_failed:
  assumes "loop_body env name d am fo txs ips = Break res"
  shows "failed res"
proof (cases rule: loop_body_entry_cases[where env=env and d=d and am=am and fo=fo and name=name])
  case ok
  from loop_body_ok[OF ok, of name txs ips] assms show ?thesis by simp
next
  case bad
  then obtain res' where "loop_body env name d am fo txs ips = Break res'" "failed res'"
    by blast
  with assms show ?thesis by simp
qed

subsection \<open>The whole loop\<close>

lemma loop_ok:
  "\<forall>fo\<in>set fos. entry_ok env d am fo \<Longrightarrow>
   loop env name d am fos txs ips =
     Continue (txs @ concat (map (entry_txs env d) fos))
       (ips @ map Memo (filter (\<lambda>tx. validator_name tx \<noteq> Some name)
          (concat (map (entry_txs env d) fos))))"
proof (induction fos arbitrary: txs ips)
  case Nil
  then show ?case by simp
next
  case (Cons fo fos)
  then have "entry_ok env d am fo" and rest: "\<forall>fo\<in>set fos. entry_ok env d am fo" by simp_all
  then show ?case using Cons.IH[OF rest] by (simp add: loop_body_ok)
qed

lemma loop_Continue:
  "loop env name d am fos txs ips = Continue txs' ips' \<Longrightarrow> \<forall>fo\<in>set fos. entry_ok env d am fo"
proof (induction fos arbitrary: txs ips)
  case Nil
  then show ?case by simp
next
  case (Cons fo fos)
  from Cons.prems obtain t i where b: "loop_body env name d am fo txs ips = Continue t i"
    and l: "loop env name d am fos t i = Continue txs' ips'"
    by (auto split: step.splits)
  from loop_body_Continue[OF b] Cons.IH[OF l] show ?case by simp
qed

lemma loop_append:
  "loop env name d am (pre @ post) txs ips =
     (case loop env name d am pre txs ips of
        Break r \<Rightarrow> Break r
      | Continue txs' ips' \<Rightarrow> loop env name d am post txs' ips')"
proof (induction pre arbitrary: txs ips)
  case Nil
  then show ?case by simp
next
  case (Cons fo pre)
  show ?case
  proof (cases "loop_body env name d am fo txs ips")
    case (Continue t i)
    then show ?thesis using Cons.IH[of t i] by simp
  next
    case (Break r)
    then show ?thesis by simp
  qed
qed

lemma loop_Break_failed:
  "loop env name d am fos txs ips = Break res \<Longrightarrow> failed res"
proof (induction fos arbitrary: txs ips)
  case Nil
  then show ?case by simp
next
  case (Cons fo fos)
  show ?case
  proof (cases "loop_body env name d am fo txs ips")
    case (Continue t i)
    with Cons.prems have "loop env name d am fos t i = Break res" by simp
    then show ?thesis by (rule Cons.IH)
  next
    case (Break r)
    with Cons.prems have "r = res" by simp
    with Break show ?thesis using loop_body_Break_failed by blast
  qed
qed

lemma loop_filter_is_read:
  "loop env name d am (filter (is_read d) fos) txs ips = loop env name d am fos txs ips"
proof (induction fos arbitrary: txs ips)
  case Nil
  show ?case by simp
next
  case (Cons fo fos)
  show ?case
  proof (cases "is_read d fo")
    case True
    then show ?thesis
      by (cases "loop_body env name d am fo txs ips") (simp_all add: Cons.IH)
  next
    case False
    then show ?thesis by (simp add: loop_body_skip Cons.IH)
  qed
qed

lemma entry_txs_decode1:
  assumes "entry_ok env d am fo"
  shows "map Inr (entry_txs env d fo) = map (decode_entry env d) (filter (is_read d) [fo])"
proof (cases "is_read d fo")
  case False
  then show ?thesis by (simp add: entry_txs_def)
next
  case True
  with assms obtain tx where "decode_entry env d fo = Inr tx"
    by (cases "decode_entry env d fo") (simp_all add: entry_ok_def)
  with True show ?thesis by (simp add: entry_txs_def)
qed

lemma entry_txs_valid1:
  assumes "entry_ok env d am fo" "tx \<in> set (entry_txs env d fo)"
  shows "valid_tx am tx"
proof (cases "is_read d fo")
  case False
  with assms(2) show ?thesis by (simp add: entry_txs_def)
next
  case True
  with assms(1) obtain tx' where tx': "decode_entry env d fo = Inr tx'" "valid_tx am tx'"
    by (cases "decode_entry env d fo") (simp_all add: entry_ok_def)
  with True assms(2) show ?thesis by (simp add: entry_txs_def)
qed

lemma entry_txs_decode:
  "\<forall>fo\<in>set fos. entry_ok env d am fo \<Longrightarrow>
   map Inr (concat (map (entry_txs env d) fos)) = map (decode_entry env d) (filter (is_read d) fos)"
proof (induction fos)
  case Nil
  then show ?case by simp
next
  case (Cons fo fos)
  then have ok: "entry_ok env d am fo" and rest: "\<forall>fo\<in>set fos. entry_ok env d am fo"
    by simp_all
  have "map Inr (concat (map (entry_txs env d) (fo # fos))) =
        map Inr (entry_txs env d fo) @ map Inr (concat (map (entry_txs env d) fos))"
    by simp
  also have "\<dots> = map (decode_entry env d) (filter (is_read d) [fo])
        @ map (decode_entry env d) (filter (is_read d) fos)"
    by (simp only: entry_txs_decode1[OF ok] Cons.IH[OF rest])
  also have "\<dots> = map (decode_entry env d) (filter (is_read d) (fo # fos))"
    by simp
  finally show ?case .
qed

lemma entry_txs_valid:
  "\<forall>fo\<in>set fos. entry_ok env d am fo \<Longrightarrow>
   \<forall>tx\<in>set (concat (map (entry_txs env d) fos)). valid_tx am tx"
  using entry_txs_valid1 by fastforce

subsection \<open>Successful and failing runs\<close>

lemma CollectStdTxs_success:
  assumes "CollectStdTxs env name d genDoc = Returned r" and "err r = None"
  obtains fos st where
    "ReadDir env d = Inr fos"
    "UnmarshalAppState env (AppState genDoc) = Inr st"
    "\<forall>fo\<in>set fos. entry_ok env d (build_addrMap (GenesisAccounts env st)) fo"
    "appGenTxs r = concat (map (entry_txs env d) fos)"
    "persistentPeers r = strings_Join (sort_Strings (map Memo
       (filter (\<lambda>tx. validator_name tx \<noteq> Some name) (appGenTxs r)))) '',''"
proof (cases "ReadDir env d")
  case (Inl e)
  with assms show ?thesis by (auto simp add: CollectStdTxs_def)
next
  case fos: (Inr fos)
  show ?thesis
  proof (cases "UnmarshalAppState env (AppState genDoc)")
    case (Inl e)
    with fos assms show ?thesis by (auto simp add: CollectStdTxs_def)
  next
    case st: (Inr st)
    let ?am = "build_addrMap (GenesisAccounts env st)"
    show ?thesis
    proof (cases "loop env name d ?am fos [] []")
      case (Break res)
      from loop_Break_failed[OF Break] have "failed res" .
      moreover from fos st Break assms(1) have "res = Returned r"
        by (simp add: CollectStdTxs_def)
      ultimately show ?thesis using assms(2) by (simp add: failed_def)
    next
      case (Continue txs ips)
      from loop_Continue[OF Continue] have ok: "\<forall>fo\<in>set fos. entry_ok env d ?am fo" .
      from loop_ok[OF ok, of name "[]" "[]"] Continue
      have t: "txs = concat (map (entry_txs env d) fos)"
        and i: "ips = map Memo (filter (\<lambda>tx. validator_name tx \<noteq> Some name) txs)"
        by simp_all
      from fos st Continue assms(1)
      have r: "r = \<lparr>appGenTxs = txs,
                  persistentPeers = strings_Join (sort_Strings ips) '','', err = None\<rparr>"
        by (simp add: CollectStdTxs_def)
      show ?thesis
      proof (rule that[OF fos st ok])
        show "appGenTxs r = concat (map (entry_txs env d) fos)" using r t by simp
        show "persistentPeers r = strings_Join (sort_Strings (map Memo
          (filter (\<lambda>tx. validator_name tx \<noteq> Some name) (appGenTxs r)))) '',''"
          using r i by simp
      qed
    qed
  qed
qed

lemma CollectStdTxs_ok:
  assumes "ReadDir env d = Inr fos"
    "UnmarshalAppState env (AppState genDoc) = Inr st"
    "\<forall>fo\<in>set fos. entry_ok env d (build_addrMap (GenesisAccounts env st)) fo"
  shows "CollectStdTxs env name d genDoc =
    Returned \<lparr>appGenTxs = concat (map (entry_txs env d) fos),
      persistentPeers = strings_Join (sort_Strings (map Memo
        (filter (\<lambda>tx. validator_name tx \<noteq> Some name) (concat (map (entry_txs env d) fos))))) '','',
      err = None\<rparr>"
  using loop_ok[OF assms(3), of name "[]" "[]"] assms(1,2)
  by (simp add: CollectStdTxs_def)

lemma CollectStdTxs_break:
  assumes "ReadDir env d = Inr (pre @ fo # post)"
    and "UnmarshalAppState env (AppState genDoc) = Inr st"
    and "loop env name d (build_addrMap (GenesisAccounts env st)) pre [] [] = Continue txs ips"
    and "loop_body env name d (build_addrMap (GenesisAccounts env st)) fo txs ips = Break res"
  shows "CollectStdTxs env name d genDoc = res"
proof -
  have "loop env name d (build_addrMap (GenesisAccounts env st)) (pre @ fo # post) [] [] = Break res"
    by (simp add: loop_append assms(3,4))
  with assms(1,2) show ?thesis by (simp add: CollectStdTxs_def)
qed

subsection \<open>The order of the directory listing\<close>

lemma sort_mset_cong: "mset xs = mset ys \<Longrightarrow> sort xs = sort (ys :: string list)"
  by (rule properties_for_sort) simp_all

lemma mset_concat_map: "mset (concat (map f xs)) = (\<Sum>x\<in>#mset xs. mset (f x))"
  by (induction xs) simp_all

lemma mset_concat_map_cong:
  "mset xs = mset ys \<Longrightarrow> mset (concat (map f xs)) = mset (concat (map f ys))"
  by (simp add: mset_concat_map)

lemma loop_body_ReadDir_upd:
  "loop_body (env\<lparr>ReadDir := rd\<rparr>) name d am fo txs ips = loop_body env name d am fo txs ips"
  unfolding loop_body_def Let_def
  by (simp del: filepath_Join.simps split: sum.split Msg.split)

lemma loop_ReadDir_upd:
  "loop (env\<lparr>ReadDir := rd\<rparr>) name d am fos txs ips = loop env name d am fos txs ips"
proof (induction fos arbitrary: txs ips)
  case Nil
  show ?case by simp
next
  case (Cons fo fos)
  show ?case
    by (cases "loop_body env name d am fo txs ips")
      (simp_all add: loop_body_ReadDir_upd Cons.IH)
qed

lemma decode_entry_ReadDir_upd:
  "decode_entry (env\<lparr>ReadDir := rd\<rparr>) d fo = decode_entry env d fo"
  unfolding decode_entry_def
  by (cases "ReadFile env (filepath_Join [d, Name fo])") (simp_all del: filepath_Join.simps)

lemma entry_ok_ReadDir_upd:
  "entry_ok (env\<lparr>ReadDir := rd\<rparr>) d am fo = entry_ok env d am fo"
  by (simp only: entry_ok_def decode_entry_ReadDir_upd)

lemma entry_txs_ReadDir_upd:
  "entry_txs (env\<lparr>ReadDir := rd\<rparr>) d = entry_txs env d"
  by (rule ext) (simp only: entry_txs_def decode_entry_ReadDir_upd)

lemma CollectStdTxs_ReadDir_upd:
  "CollectStdTxs (env\<lparr>ReadDir := \<lambda>d. Inr fos\<rparr>) name d genDoc =
     (case UnmarshalAppState env (AppState genDoc) of
        Inl e \<Rightarrow> Returned \<lparr>appGenTxs = [], persistentPeers = [], err = Some e\<rparr>
      | Inr st \<Rightarrow>
        (case loop env name d (build_addrMap (GenesisAccounts env st)) fos [] [] of
           Break r \<Rightarrow> r
         | Continue txs addressesIPs \<Rightarrow>
             Returned \<lparr>appGenTxs = txs,
               persistentPeers = strings_Join (sort_Strings addressesIPs) '','',
               err = None\<rparr>))"
  by (cases "UnmarshalAppState env (AppState genDoc)")
     (simp_all add: CollectStdTxs_def loop_ReadDir_upd)

subsection \<open>Counting entries\<close>

lemma count_list_sort: "count_list (sort xs) m = count_list (xs :: string list) m"
proof -
  have "count (mset (sort xs)) m = count (mset xs) m" by simp
  then show ?thesis by (simp only: count_mset)
qed

lemma count_list_map_filter:
  "count_list (map f (filter P xs)) m = length (filter (\<lambda>x. P x \<and> f x = m) xs)"
  by (induction xs) simp_all

subsection \<open>The account index\<close>

lemma Iterate_addrMap:
  "IterateGenesisAccounts accs addrMap_callback m =
     m ++ map_of (rev (map (\<lambda>a. (Address a, a)) accs))"
proof (induction accs arbitrary: m)
  case Nil
  show ?case by simp
next
  case (Cons acc accs)
  have "IterateGenesisAccounts (acc # accs) addrMap_callback m =
        IterateGenesisAccounts accs addrMap_callback (m(Address acc \<mapsto> acc))"
    by (simp add: addrMap_callback_def)
  also have "\<dots> = m(Address acc \<mapsto> acc) ++ map_of (rev (map (\<lambda>a. (Address a, a)) accs))"
    by (rule Cons.IH)
  also have "\<dots> = m ++ map_of (rev (map (\<lambda>a. (Address a, a)) (acc # accs)))"
    by (rule ext) (simp add: map_add_def split: option.split)
  finally show ?case .
qed

lemma build_addrMap_map_of:
  "build_addrMap accs = map_of (rev (map (\<lambda>a. (Address a, a)) accs))"
  by (simp add: build_addrMap_def Iterate_addrMap)

section \<open>The claims\<close>

text \<open>
  Claim C1, as stated, fails: with an empty transaction directory the run does fail with the
  error "there must be at least one genesis tx", but it has written \<open>config.toml\<close> before
  it looks at the number of transactions.
\<close>

theorem empty_genesis_config_written_counterexample:
  "GenAppStateFromConfig (example_env [] [] [] example_accounts)
      example_config example_initCfg example_genDoc =
   Returned \<lparr>appState = [],
     gen_err = Some (ErrUnknownRequest ''there must be at least one genesis tx''),
     config_after = example_config\<lparr>PersistentPeers := []\<rparr>,
     files = [ConfigFile ''/home/node/config/config.toml''
                (example_config\<lparr>PersistentPeers := []\<rparr>)]\<rparr>"
  by code_simp

text \<open>
  Claim C1, amended: if \<open>CollectStdTxs\<close> returns without error and with no transaction,
  \<open>GenAppStateFromConfig\<close> first writes the network configuration \<open>config.toml\<close>, with an
  empty persistent-peers field. When that write returns, the run fails with
  \<open>ErrUnknownRequest\<close> "there must be at least one genesis tx", the genesis document is not
  written, and \<open>config.toml\<close> is the only file written. When that write panics or ends the
  process, so does the run.
\<close>

theorem empty_genesis_rejected:
  assumes "CollectStdTxs env (Moniker config) (GenTxsDir initCfg) genDoc = Returned c"
    and "err c = None" and "appGenTxs c = []"
  shows "GenAppStateFromConfig env config initCfg genDoc =
   (case WriteConfigFile env (filepath_Join [RootDir config, ''config'', ''config.toml''])
           (config\<lparr>PersistentPeers := []\<rparr>) of
      Returned u \<Rightarrow>
        Returned \<lparr>appState = [],
          gen_err = Some (ErrUnknownRequest ''there must be at least one genesis tx''),
          config_after = config\<lparr>PersistentPeers := []\<rparr>,
          files = [ConfigFile (filepath_Join [RootDir config, ''config'', ''config.toml''])
                     (config\<lparr>PersistentPeers := []\<rparr>)]\<rparr>
    | Panicked p \<Rightarrow> Panicked p
    | Exited m \<Rightarrow> Exited m)"
proof -
  from assms(1,2) obtain fos st where
    "persistentPeers c = strings_Join (sort_Strings (map Memo
       (filter (\<lambda>tx. validator_name tx \<noteq> Some (Moniker config)) (appGenTxs c)))) '',''"
    by (rule CollectStdTxs_success)
  with assms(3) have p: "persistentPeers c = []" by (simp add: sort_Strings_def)
  show ?thesis
    unfolding GenAppStateFromConfig_def Let_def
    by (cases "WriteConfigFile env (filepath_Join [RootDir config, ''config'', ''config.toml''])
           (config\<lparr>PersistentPeers := []\<rparr>)")
       (simp_all add: assms p del: filepath_Join.simps)
qed

theorem empty_genesis_rejected_witness:
  "GenAppStateFromConfig (example_env [readme_md] [] [] example_accounts)
      example_config example_initCfg example_genDoc =
   Returned \<lparr>appState = [],
     gen_err = Some (ErrUnknownRequest ''there must be at least one genesis tx''),
     config_after = example_config\<lparr>PersistentPeers := []\<rparr>,
     files = [ConfigFile ''/home/node/config/config.toml''
                (example_config\<lparr>PersistentPeers := []\<rparr>)]\<rparr> \<and>
   GenAppStateFromConfig (read_only_root (example_env [readme_md] [] [] example_accounts))
      example_config example_initCfg example_genDoc =
   Exited ''MustWriteFile failed: read-only file system''"
proof -
  let ?env = "example_env [readme_md] [] [] example_accounts"
  have h: "CollectStdTxs ?env
      (Moniker example_config) (GenTxsDir example_initCfg) example_genDoc =
     Returned \<lparr>appGenTxs = [], persistentPeers = [], err = None\<rparr>"
    by code_simp
  have h': "CollectStdTxs (read_only_root ?env)
      (Moniker example_config) (GenTxsDir example_initCfg) example_genDoc =
     Returned \<lparr>appGenTxs = [], persistentPeers = [], err = None\<rparr>"
    by code_simp
  have j: "filepath_Join [RootDir example_config, ''config'', ''config.toml''] =
     ''/home/node/config/config.toml''"
    by code_simp
  have w: "WriteConfigFile ?env ''/home/node/config/config.toml''
      (example_config\<lparr>PersistentPeers := []\<rparr>) = Returned ()"
    by (simp add: example_env_def)
  have w': "WriteConfigFile (read_only_root ?env) ''/home/node/config/config.toml''
      (example_config\<lparr>PersistentPeers := []\<rparr>) =
      Exited ''MustWriteFile failed: read-only file system''"
    by (simp add: read_only_root_def)
  from empty_genesis_rejected[OF h] empty_genesis_rejected[OF h'] j w w'
  show ?thesis by simp
qed


text \<open>
  Claim C2: a transaction with a memo and a single message that is not a validator-creation
  message should be rejected with an error value. On such a transaction the unchecked type
  assertion of the code panics instead.
\<close>

theorem other_message_kind_panics:
  "CollectStdTxs (network tx_other_kind) ''alice'' ''gentxs'' example_genDoc =
     Panicked ''interface conversion: types.Msg is pki.MsgProposeAddX509RootCert, not validator.MsgCreateValidator''"
  by code_simp

text \<open>
  Claim C3, as stated, fails: a subdirectory is not skipped. The loop passes it to
  \<open>ioutil.ReadFile\<close>, and the error of that read ends the run.
\<close>

theorem subdirectory_read_counterexample:
  "CollectStdTxs network_with_subdir ''alice'' ''gentxs'' example_genDoc =
     Returned \<lparr>appGenTxs = [], persistentPeers = [],
       err = Some (OSError ''read gentxs/backup: is a directory'')\<rparr> \<and>
   ReadDir network_with_subdir ''gentxs'' = Inr [backup_dir, v1_json, v2_json] \<and>
   IsDir backup_dir"
  by code_simp

text \<open>
  Claim C3, amended: every regular file whose name does not end in \<open>.json\<close> is silently
  skipped, that is, the run is the same as without these entries; and every regular file
  whose name ends in \<open>.json\<close> is read and decoded, a failure of either ending the run with
  that error. File names are not empty.
\<close>

theorem regular_non_json_files_skipped:
  assumes "\<forall>fo\<in>set fos. Name fo \<noteq> []"
  shows "CollectStdTxs (env\<lparr>ReadDir := \<lambda>d. Inr fos\<rparr>) name genTxsDir genDoc =
         CollectStdTxs (env\<lparr>ReadDir := \<lambda>d. Inr
           (filter (\<lambda>fo. IsDir fo \<or> suffix ''.json'' (Name fo)) fos)\<rparr>) name genTxsDir genDoc \<and>
         (\<forall>fo\<in>set fos. \<forall>e addrMap txs ips.
            \<not> IsDir fo \<and> suffix ''.json'' (Name fo) \<and>
            decode_entry env genTxsDir fo = Inl e \<longrightarrow>
            loop_body env name genTxsDir addrMap fo txs ips =
              Break (Returned \<lparr>appGenTxs = txs, persistentPeers = [], err = Some e\<rparr>))"
proof -
  have f: "filter (\<lambda>fo. IsDir fo \<or> suffix ''.json'' (Name fo)) fos = filter (is_read genTxsDir) fos"
    using assms by (intro filter_cong refl) (simp add: is_read_suffix)
  have 1: "CollectStdTxs (env\<lparr>ReadDir := \<lambda>d. Inr fos\<rparr>) name genTxsDir genDoc =
         CollectStdTxs (env\<lparr>ReadDir := \<lambda>d. Inr
           (filter (\<lambda>fo. IsDir fo \<or> suffix ''.json'' (Name fo)) fos)\<rparr>) name genTxsDir genDoc"
    unfolding f CollectStdTxs_ReadDir_upd loop_filter_is_read ..
  have 2: "loop_body env name genTxsDir addrMap fo txs ips =
              Break (Returned \<lparr>appGenTxs = txs, persistentPeers = [], err = Some e\<rparr>)"
    if "fo \<in> set fos" "suffix ''.json'' (Name fo)"
      "decode_entry env genTxsDir fo = Inl e" for fo e addrMap txs ips
  proof -
    from that(1) assms have "Name fo \<noteq> []" by blast
    with that(2) have rd: "is_read genTxsDir fo" by (simp add: is_read_suffix)
    from rd that(3) show ?thesis by (rule loop_body_decode_error)
  qed
  from 1 2 show ?thesis by blast
qed

theorem regular_non_json_files_skipped_witness:
  "CollectStdTxs (network tx_bob\<lparr>ReadDir := \<lambda>d. Inr [v1_json, readme_md, v2_json]\<rparr>)
      ''alice'' ''gentxs'' example_genDoc =
   CollectStdTxs (network tx_bob\<lparr>ReadDir := \<lambda>d. Inr [v1_json, v2_json]\<rparr>)
      ''alice'' ''gentxs'' example_genDoc \<and>
   loop_body undecodable_v2 ''alice'' ''gentxs'' Map.empty v2_json [] [] =
     Break (Returned \<lparr>appGenTxs = [], persistentPeers = [],
       err = Some (CodecError ''invalid JSON'')\<rparr>)"
proof -
  have n: "\<forall>fo\<in>set [v1_json, readme_md, v2_json]. Name fo \<noteq> []"
    by (simp add: v1_json_def v2_json_def readme_md_def)
  have k: "filter (\<lambda>fo. IsDir fo \<or> suffix ''.json'' (Name fo)) [v1_json, readme_md, v2_json] =
      [v1_json, v2_json]"
    by (simp add: v1_json_def v2_json_def readme_md_def suffix_def)
  have a: "CollectStdTxs (network tx_bob\<lparr>ReadDir := \<lambda>d. Inr [v1_json, readme_md, v2_json]\<rparr>)
      ''alice'' ''gentxs'' example_genDoc =
   CollectStdTxs (network tx_bob\<lparr>ReadDir := \<lambda>d. Inr [v1_json, v2_json]\<rparr>)
      ''alice'' ''gentxs'' example_genDoc"
    using regular_non_json_files_skipped[OF n, of "network tx_bob" "''alice''" "''gentxs''" example_genDoc]
    unfolding k by blast
  have n': "\<forall>fo\<in>set [v2_json]. Name fo \<noteq> []" by (simp add: v2_json_def)
  have d: "\<not> IsDir v2_json" "suffix ''.json'' (Name v2_json)"
    by (simp_all add: v2_json_def suffix_def)
  have r: "decode_entry undecodable_v2 ''gentxs'' v2_json = Inl (CodecError ''invalid JSON'')"
    by code_simp
  have b: "loop_body undecodable_v2 ''alice'' ''gentxs'' Map.empty v2_json [] [] =
     Break (Returned \<lparr>appGenTxs = [], persistentPeers = [],
       err = Some (CodecError ''invalid JSON'')\<rparr>)"
    using regular_non_json_files_skipped[OF n', of undecodable_v2 "''alice''" "''gentxs''" example_genDoc]
      d r by simp
  from a b show ?thesis ..
qed

text \<open>
  Claim C4: for fixed file contents and moniker, if the run succeeds on one enumeration of
  the directory entries, it succeeds on every other enumeration of the same entries, with
  the same persistent-peers string.
\<close>

theorem persistentPeers_order_independent:
  assumes "mset fos' = mset fos"
    and "CollectStdTxs (env\<lparr>ReadDir := \<lambda>d. Inr fos\<rparr>) name genTxsDir genDoc = Returned r"
    and "err r = None"
  shows "\<exists>r'. CollectStdTxs (env\<lparr>ReadDir := \<lambda>d. Inr fos'\<rparr>) name genTxsDir genDoc = Returned r' \<and>
           err r' = None \<and> persistentPeers r' = persistentPeers r"
proof -
  let ?e = "env\<lparr>ReadDir := \<lambda>d. Inr fos\<rparr>" and ?e' = "env\<lparr>ReadDir := \<lambda>d. Inr fos'\<rparr>"
  from assms(2,3) obtain fos0 st where
    rd: "ReadDir ?e genTxsDir = Inr fos0"
    and st: "UnmarshalAppState ?e (AppState genDoc) = Inr st"
    and ok: "\<forall>fo\<in>set fos0. entry_ok ?e genTxsDir (build_addrMap (GenesisAccounts ?e st)) fo"
    and t: "appGenTxs r = concat (map (entry_txs ?e genTxsDir) fos0)"
    and p: "persistentPeers r = strings_Join (sort_Strings (map Memo
       (filter (\<lambda>tx. validator_name tx \<noteq> Some name) (appGenTxs r)))) '',''"
    by (rule CollectStdTxs_success)
  from rd have [simp]: "fos0 = fos" by simp
  from assms(1) have s: "set fos' = set fos" by (rule mset_eq_setD)
  have rd': "ReadDir ?e' genTxsDir = Inr fos'" by simp
  have st': "UnmarshalAppState ?e' (AppState genDoc) = Inr st" using st by simp
  have ok': "\<forall>fo\<in>set fos'. entry_ok ?e' genTxsDir (build_addrMap (GenesisAccounts ?e' st)) fo"
    using ok s by (simp add: entry_ok_ReadDir_upd)
  let ?txs = "concat (map (entry_txs env genTxsDir) fos)"
  let ?txs' = "concat (map (entry_txs env genTxsDir) fos')"
  have m: "mset ?txs' = mset ?txs" using assms(1) by (rule mset_concat_map_cong)
  have "mset (map Memo (filter (\<lambda>tx. validator_name tx \<noteq> Some name) ?txs')) =
        mset (map Memo (filter (\<lambda>tx. validator_name tx \<noteq> Some name) ?txs))"
    by (simp add: m)
  then have srt: "sort_Strings (map Memo (filter (\<lambda>tx. validator_name tx \<noteq> Some name) ?txs')) =
        sort_Strings (map Memo (filter (\<lambda>tx. validator_name tx \<noteq> Some name) ?txs))"
    unfolding sort_Strings_def by (rule sort_mset_cong)
  from CollectStdTxs_ok[OF rd' st' ok', of name] srt p t show ?thesis
    by (simp add: entry_txs_ReadDir_upd)
qed

theorem persistentPeers_order_independent_witness:
  "mset [v2_json, readme_md, v1_json] = mset [v1_json, readme_md, v2_json] \<and>
   (\<exists>r'. CollectStdTxs (network tx_bob\<lparr>ReadDir := \<lambda>d. Inr [v2_json, readme_md, v1_json]\<rparr>)
           ''carol'' ''gentxs'' example_genDoc = Returned r' \<and>
         err r' = None \<and> persistentPeers r' = ''nodeA@10.0.0.1:26656,nodeB@10.0.0.2:26656'')"
proof -
  have m: "mset [v2_json, readme_md, v1_json] = mset [v1_json, readme_md, v2_json]"
    by simp
  have h: "CollectStdTxs (network tx_bob\<lparr>ReadDir := \<lambda>d. Inr [v1_json, readme_md, v2_json]\<rparr>)
      ''carol'' ''gentxs'' example_genDoc =
     Returned \<lparr>appGenTxs = [tx_alice, tx_bob],
       persistentPeers = ''nodeA@10.0.0.1:26656,nodeB@10.0.0.2:26656'', err = None\<rparr>"
    by code_simp
  from persistentPeers_order_independent[OF m h] m show ?thesis by simp
qed

text \<open>
  Claim C5: on a successful run the persistent-peers string is the comma-joined sorted
  arrangement of the memos of the collected transactions whose validator name is not the
  moniker, and it is empty when there is no such transaction.
\<close>

theorem persistentPeers_sorted_join:
  assumes "CollectStdTxs env name genTxsDir genDoc = Returned r" and "err r = None"
  shows "(\<exists>peers. mset peers = mset (peer_addresses name (appGenTxs r)) \<and> sorted peers \<and>
            persistentPeers r = strings_Join peers '','') \<and>
         (peer_addresses name (appGenTxs r) = [] \<longrightarrow> persistentPeers r = [])"
proof -
  from assms obtain fos st where
    p: "persistentPeers r = strings_Join (sort_Strings (map Memo
       (filter (\<lambda>tx. validator_name tx \<noteq> Some name) (appGenTxs r)))) '',''"
    by (rule CollectStdTxs_success)
  let ?ps = "sort_Strings (peer_addresses name (appGenTxs r))"
  have "mset ?ps = mset (peer_addresses name (appGenTxs r))" "sorted ?ps"
    by (simp_all add: sort_Strings_def)
  moreover have "persistentPeers r = strings_Join ?ps '',''"
    using p by (simp add: peer_addresses_def)
  moreover have "peer_addresses name (appGenTxs r) = [] \<longrightarrow> persistentPeers r = []"
    using p by (simp add: peer_addresses_def sort_Strings_def)
  ultimately show ?thesis by blast
qed

theorem persistentPeers_sorted_join_witness:
  "CollectStdTxs (network tx_bob) ''carol'' ''gentxs'' example_genDoc =
     Returned \<lparr>appGenTxs = [tx_alice, tx_bob],
       persistentPeers = ''nodeA@10.0.0.1:26656,nodeB@10.0.0.2:26656'', err = None\<rparr> \<and>
   (\<exists>peers. mset peers = mset (peer_addresses ''carol'' [tx_alice, tx_bob]) \<and> sorted peers \<and>
      ''nodeA@10.0.0.1:26656,nodeB@10.0.0.2:26656'' = strings_Join peers '','')"
proof -
  have h: "CollectStdTxs (network tx_bob) ''carol'' ''gentxs'' example_genDoc =
     Returned \<lparr>appGenTxs = [tx_alice, tx_bob],
       persistentPeers = ''nodeA@10.0.0.1:26656,nodeB@10.0.0.2:26656'', err = None\<rparr>"
    by code_simp
  from persistentPeers_sorted_join[OF h] h show ?thesis by simp
qed

text \<open>
  Claim C6, as stated, fails: the memo of the local node's own transaction appears in the
  peers string when another validator's transaction carries the same memo.
\<close>

theorem self_address_listed_counterexample:
  "CollectStdTxs (network tx_bob_same_address) ''alice'' ''gentxs'' example_genDoc =
     Returned \<lparr>appGenTxs = [tx_alice, tx_bob_same_address],
       persistentPeers = Memo tx_alice, err = None\<rparr> \<and>
   validator_name tx_alice = Some ''alice''"
  by code_simp

text \<open>
  Claim C6, amended: on a successful run the peers string is the comma join of the sorted
  memos of the collected transactions whose validator name differs from the moniker. A
  transaction whose validator name equals the moniker thus contributes no entry: the
  number of entries equal to its memo is the number of transactions of other validators
  that carry the same memo, and its memo is no entry at all when there is none.
\<close>

theorem self_exclusion:
  assumes "CollectStdTxs env name genTxsDir genDoc = Returned r" and "err r = None"
  shows "persistentPeers r =
       strings_Join (sort_Strings (map Memo
         (filter (\<lambda>tx. validator_name tx \<noteq> Some name) (appGenTxs r)))) '','' \<and>
     (\<forall>tx\<in>set (appGenTxs r). validator_name tx = Some name \<longrightarrow>
        count_list (sort_Strings (map Memo
            (filter (\<lambda>tx. validator_name tx \<noteq> Some name) (appGenTxs r)))) (Memo tx) =
          length (filter (\<lambda>tx'. validator_name tx' \<noteq> Some name \<and> Memo tx' = Memo tx)
            (appGenTxs r)) \<and>
        ((\<forall>tx'\<in>set (appGenTxs r). validator_name tx' \<noteq> Some name \<longrightarrow> Memo tx' \<noteq> Memo tx) \<longrightarrow>
          Memo tx \<notin> set (sort_Strings (map Memo
            (filter (\<lambda>tx. validator_name tx \<noteq> Some name) (appGenTxs r))))))"
proof -
  from assms obtain fos st where
    p: "persistentPeers r = strings_Join (sort_Strings (map Memo
       (filter (\<lambda>tx. validator_name tx \<noteq> Some name) (appGenTxs r)))) '',''"
    by (rule CollectStdTxs_success)
  let ?ps = "sort_Strings (map Memo (filter (\<lambda>tx. validator_name tx \<noteq> Some name) (appGenTxs r)))"
  have c: "count_list ?ps m =
      length (filter (\<lambda>tx'. validator_name tx' \<noteq> Some name \<and> Memo tx' = m) (appGenTxs r))" for m
    unfolding sort_Strings_def by (simp only: count_list_sort count_list_map_filter)
  have s: "set ?ps = Memo ` {tx \<in> set (appGenTxs r). validator_name tx \<noteq> Some name}"
    by (simp add: sort_Strings_def)
  have n: "Memo tx \<notin> set ?ps"
    if "\<forall>tx'\<in>set (appGenTxs r). validator_name tx' \<noteq> Some name \<longrightarrow> Memo tx' \<noteq> Memo tx" for tx
    unfolding s using that by auto
  from p c n show ?thesis by blast
qed

theorem self_exclusion_witness:
  "''nodeB@10.0.0.2:26656'' =
     strings_Join (sort_Strings (map Memo
       (filter (\<lambda>tx. validator_name tx \<noteq> Some ''alice'') [tx_alice, tx_bob]))) '','' \<and>
   validator_name tx_alice = Some ''alice'' \<and>
   count_list (sort_Strings (map Memo
       (filter (\<lambda>tx. validator_name tx \<noteq> Some ''alice'') [tx_alice, tx_bob]))) (Memo tx_alice) = 0"
proof -
  have h: "CollectStdTxs (network tx_bob) ''alice'' ''gentxs'' example_genDoc =
     Returned \<lparr>appGenTxs = [tx_alice, tx_bob], persistentPeers = ''nodeB@10.0.0.2:26656'',
       err = None\<rparr>"
    by code_simp
  have v: "validator_name tx_alice = Some ''alice''" by code_simp
  have z: "length (filter (\<lambda>tx'. validator_name tx' \<noteq> Some ''alice'' \<and> Memo tx' = Memo tx_alice)
      [tx_alice, tx_bob]) = 0"
    by code_simp
  have i: "tx_alice \<in> set [tx_alice, tx_bob]" by simp
  from self_exclusion[OF h] have
    1: "''nodeB@10.0.0.2:26656'' =
     strings_Join (sort_Strings (map Memo
       (filter (\<lambda>tx. validator_name tx \<noteq> Some ''alice'') [tx_alice, tx_bob]))) '',''"
    and 2: "\<forall>tx\<in>set [tx_alice, tx_bob]. validator_name tx = Some ''alice'' \<longrightarrow>
        count_list (sort_Strings (map Memo
            (filter (\<lambda>tx. validator_name tx \<noteq> Some ''alice'') [tx_alice, tx_bob]))) (Memo tx) =
          length (filter (\<lambda>tx'. validator_name tx' \<noteq> Some ''alice'' \<and> Memo tx' = Memo tx)
            [tx_alice, tx_bob])"
    by simp_all
  from 2 i v have "count_list (sort_Strings (map Memo
       (filter (\<lambda>tx. validator_name tx \<noteq> Some ''alice'') [tx_alice, tx_bob]))) (Memo tx_alice) =
     length (filter (\<lambda>tx'. validator_name tx' \<noteq> Some ''alice'' \<and> Memo tx' = Memo tx_alice)
       [tx_alice, tx_bob])"
    by blast
  with z 1 v show ?thesis by simp
qed


text \<open>
  Claim C7: when the loop reaches an entry that decodes to a transaction with a non-empty
  memo and a number of messages other than one, \<open>CollectStdTxs\<close> returns the error "each
  genesis transaction must provide a single genesis message".
\<close>

theorem single_message_required:
  assumes "ReadDir env genTxsDir = Inr (pre @ fo # post)"
    and "UnmarshalAppState env (AppState genDoc) = Inr st"
    and "loop env name genTxsDir (build_addrMap (GenesisAccounts env st)) pre [] [] = Continue txs ips"
    and "is_read genTxsDir fo"
    and "decode_entry env genTxsDir fo = Inr tx"
    and "Memo tx \<noteq> []"
    and "length (Msgs tx) \<noteq> 1"
  shows "CollectStdTxs env name genTxsDir genDoc =
    Returned \<lparr>appGenTxs = txs @ [tx], persistentPeers = [],
      err = Some (ErrUnknownRequest
        ''each genesis transaction must provide a single genesis message'')\<rparr>"
  by (rule CollectStdTxs_break[OF assms(1,2,3)])
     (rule loop_body_not_single[OF assms(4,5,6,7)])

theorem single_message_required_witness:
  "CollectStdTxs (network tx_two_messages) ''alice'' ''gentxs'' example_genDoc =
    Returned \<lparr>appGenTxs = [tx_alice, tx_two_messages], persistentPeers = [],
      err = Some (ErrUnknownRequest
        ''each genesis transaction must provide a single genesis message'')\<rparr>"
proof -
  let ?env = "network tx_two_messages"
  have 1: "ReadDir ?env ''gentxs'' = Inr ([v1_json, readme_md] @ v2_json # [])"
    by (simp add: network_def example_env_def)
  have 2: "UnmarshalAppState ?env (AppState example_genDoc) = Inr Map.empty"
    by (simp add: network_def example_env_def)
  have 3: "loop ?env ''alice'' ''gentxs'' (build_addrMap (GenesisAccounts ?env Map.empty))
      [v1_json, readme_md] [] [] = Continue [tx_alice] []"
    by code_simp
  have 4: "is_read ''gentxs'' v2_json" by code_simp
  have 5: "decode_entry ?env ''gentxs'' v2_json = Inr tx_two_messages" by code_simp
  have 6: "Memo tx_two_messages \<noteq> []" by (simp add: tx_two_messages_def)
  have 7: "length (Msgs tx_two_messages) \<noteq> 1" by (simp add: tx_two_messages_def)
  from single_message_required[OF 1 2 3 4 5 6 7] show ?thesis by simp
qed



text \<open>
  Claim C9: the index maps an address to the last account yielded with that address, and
  for accounts with pairwise distinct addresses the index does not depend on the order in
  which they are yielded. Building the index has no error outcome.
\<close>

theorem addrMap_last_wins:
  "(Address acc \<notin> Address ` set post \<longrightarrow>
      build_addrMap (pre @ acc # post) (Address acc) = Some acc) \<and>
   (distinct (map Address accs) \<and> mset accs' = mset accs \<longrightarrow>
      build_addrMap accs' = build_addrMap accs)"
proof (intro conjI impI)
  assume n: "Address acc \<notin> Address ` set post"
  have "map_of (rev (map (\<lambda>a. (Address a, a)) post)) (Address acc) = None"
    using n by (simp add: map_of_eq_None_iff image_image)
  then show "build_addrMap (pre @ acc # post) (Address acc) = Some acc"
    by (simp add: build_addrMap_map_of map_add_def)
next
  assume a: "distinct (map Address accs) \<and> mset accs' = mset accs"
  then have m: "mset (map Address accs') = mset (map Address accs)" by simp
  with a have d': "distinct (map Address accs')"
    using mset_eq_imp_distinct_iff by blast
  from a have s: "set accs' = set accs" using mset_eq_setD by blast
  let ?f = "\<lambda>a. (Address a, a)"
  have "map_of (rev (map ?f accs')) = map_of (rev (map ?f accs))"
  proof (rule map_of_inject_set[THEN iffD2])
    show "distinct (map fst (rev (map ?f accs')))" using d' by (simp add: rev_map[symmetric] comp_def)
    show "distinct (map fst (rev (map ?f accs)))" using a by (simp add: rev_map[symmetric] comp_def)
    show "set (rev (map ?f accs')) = set (rev (map ?f accs))" using s by simp
  qed
  then show "build_addrMap accs' = build_addrMap accs" by (simp add: build_addrMap_map_of)
qed

theorem addrMap_last_wins_witness:
  "build_addrMap [account1, account2, account1_again] ''addr1'' = Some account1_again \<and>
   build_addrMap [account2, account1] = build_addrMap [account1, account2]"
proof -
  have 1: "Address account1_again \<notin> Address ` set []" by simp
  have 2: "distinct (map Address [account1, account2]) \<and>
     mset [account2, account1] = mset [account1, account2]"
    by (simp add: account1_def account2_def)
  have 3: "Address account1_again = ''addr1''" by (simp add: account1_again_def)
  from addrMap_last_wins[where acc=account1_again and post="[]" and pre="[account1, account2]"
      and accs="[account1, account2]" and accs'="[account2, account1]"] 1 2 3
  show ?thesis by simp
qed

text \<open>
  Claim C10: on a successful run the returned transactions are the decoded transactions of
  all entries that are not skipped, in the order of the listing, whatever their validator
  name: the local node's own transaction is among them.
\<close>

theorem appGenTxs_all_decoded:
  assumes "CollectStdTxs env name genTxsDir genDoc = Returned r" and "err r = None"
    and "ReadDir env genTxsDir = Inr fos"
  shows "map Inr (appGenTxs r) = map (decode_entry env genTxsDir) (filter (is_read genTxsDir) fos) \<and>
         (\<forall>fo\<in>set fos. is_read genTxsDir fo \<longrightarrow>
            (\<exists>tx\<in>set (appGenTxs r). decode_entry env genTxsDir fo = Inr tx))"
proof -
  from assms(1,2) obtain fos' st where
    rd: "ReadDir env genTxsDir = Inr fos'"
    and ok: "\<forall>fo\<in>set fos'. entry_ok env genTxsDir (build_addrMap (GenesisAccounts env st)) fo"
    and t: "appGenTxs r = concat (map (entry_txs env genTxsDir) fos')"
    by (rule CollectStdTxs_success)
  from rd assms(3) have [simp]: "fos' = fos" by simp
  from entry_txs_decode[OF ok] t
  have eq: "map Inr (appGenTxs r) = map (decode_entry env genTxsDir) (filter (is_read genTxsDir) fos)"
    by simp
  have "\<exists>tx\<in>set (appGenTxs r). decode_entry env genTxsDir fo = Inr tx"
    if "fo \<in> set fos" "is_read genTxsDir fo" for fo
  proof -
    from that have "decode_entry env genTxsDir fo \<in> set (map Inr (appGenTxs r))"
      unfolding eq by simp
    then show ?thesis by auto
  qed
  with eq show ?thesis by blast
qed

theorem appGenTxs_all_decoded_witness:
  "CollectStdTxs (network tx_bob) ''alice'' ''gentxs'' example_genDoc =
     Returned \<lparr>appGenTxs = [tx_alice, tx_bob], persistentPeers = ''nodeB@10.0.0.2:26656'',
       err = None\<rparr> \<and>
   validator_name tx_alice = Some ''alice'' \<and>
   map Inr [tx_alice, tx_bob] = map (decode_entry (network tx_bob) ''gentxs'')
     (filter (is_read ''gentxs'')
       [v1_json, readme_md, v2_json])"
proof -
  have h: "CollectStdTxs (network tx_bob) ''alice'' ''gentxs'' example_genDoc =
     Returned \<lparr>appGenTxs = [tx_alice, tx_bob], persistentPeers = ''nodeB@10.0.0.2:26656'',
       err = None\<rparr>"
    by code_simp
  have d: "ReadDir (network tx_bob) ''gentxs'' =
     Inr [v1_json, readme_md, v2_json]"
    by (simp add: network_def example_env_def)
  have v: "validator_name tx_alice = Some ''alice''"
    by (simp add: validator_name_def tx_alice_def)
  from appGenTxs_all_decoded[OF h _ d] h v show ?thesis by simp
qed

end
